theory Spec2Isabelle
  imports Main "HOL-Library.Word" "HOL-Library.Multiset"
begin

section \<open>The Go library values the daily logger computes with\<close>

text \<open>
  The package \<^verbatim>\<open>dailylogger\<close> (file \<^verbatim>\<open>writer.go\<close>) computes with values of Go's
  \<^verbatim>\<open>time\<close> package. A \<^verbatim>\<open>time.Time\<close> is an instant (seconds and nanoseconds since the
  Unix epoch) together with a \<^verbatim>\<open>*time.Location\<close>; a Location is a table of zone
  transitions. The calendar fields of a Time are read in its Location. The monotonic clock
  reading that \<^verbatim>\<open>time.Now\<close> attaches plays no part below: \<^verbatim>\<open>time.Date\<close> results carry
  none, so \<^verbatim>\<open>Sub\<close> falls back to the wall clock, and the calendar accessors never use it.
  Seconds are unbounded integers here (Go keeps 64 bits of seconds, about 292 billion
  years either side of year 1); durations are 64-bit and their saturation and wrap-around
  are written out.
\<close>

subsection \<open>The proleptic Gregorian calendar\<close>

text \<open>
  Day numbers count days since 1970-01-01. Years are counted from 1 March inside a
  400-year era, so that the leap day is the last day of a year.
\<close>

definition days_from_civil :: "int \<Rightarrow> int \<Rightarrow> int \<Rightarrow> int" where
  "days_from_civil y m d =
     (let y' = (if m \<le> 2 then y - 1 else y);
          era = y' div 400;
          yoe = y' mod 400;
          mp = (if m > 2 then m - 3 else m + 9);
          doy = (153 * mp + 2) div 5 + d - 1;
          doe = yoe * 365 + yoe div 4 - yoe div 100 + doy
      in era * 146097 + doe - 719468)"

definition civil_from_days :: "int \<Rightarrow> int \<times> int \<times> int" where
  "civil_from_days z =
     (let z' = z + 719468;
          era = z' div 146097;
          doe = z' mod 146097;
          c = min 3 (doe div 36524);
          dc = doe - 36524 * c;
          q = dc div 1461;
          dq = dc mod 1461;
          yq = min 3 (dq div 365);
          doy = dq - 365 * yq;
          yoe = 100 * c + 4 * q + yq;
          mp = (5 * doy + 2) div 153;
          d = doy - (153 * mp + 2) div 5 + 1;
          m = (if mp < 10 then mp + 3 else mp - 9)
      in (yoe + 400 * era + (if m \<le> 2 then 1 else 0), m, d))"

subsection \<open>Locations\<close>

text \<open>
  A Location is the offset (seconds east of UTC) in force before the first transition and
  the transitions in increasing order of their instants, each with the offset it starts.
  \<^verbatim>\<open>lookup\<close> returns the offset in force at an instant and the bounds of the period it is
  in force; Go finds the period by binary search in the sorted table, the model by a scan.
  \<^verbatim>\<open>time.UTC\<close> and \<^verbatim>\<open>time.FixedZone\<close> are tables without transitions.
\<close>

datatype location = Location (first_offset: int) (tx: "(int \<times> int) list")

definition alpha :: int where
  "alpha = - (2 ^ 63)"

definition omega :: int where
  "omega = 2 ^ 63 - 1"

fun lookup_tx :: "int \<Rightarrow> int \<Rightarrow> (int \<times> int) list \<Rightarrow> int \<Rightarrow> int \<times> int \<times> int" where
  "lookup_tx off start [] s = (off, start, omega)"
| "lookup_tx off start ((w, off') # rest) s =
     (if s < w then (off, start, w) else lookup_tx off' w rest s)"

definition lookup :: "location \<Rightarrow> int \<Rightarrow> int \<times> int \<times> int" where
  "lookup l s = lookup_tx (first_offset l) alpha (tx l) s"

definition FixedZone :: "int \<Rightarrow> location" where
  "FixedZone off = Location off []"

definition UTC :: location where
  "UTC = FixedZone 0"

subsection \<open>Times and durations\<close>

record Time =
  unix_sec :: int
  nsec :: int
  loc :: location

definition abs_sec :: "Time \<Rightarrow> int" where
  "abs_sec t = unix_sec t + fst (lookup (loc t) (unix_sec t))"

definition Year :: "Time \<Rightarrow> int" where
  "Year t = fst (civil_from_days (abs_sec t div 86400))"

definition Month :: "Time \<Rightarrow> int" where
  "Month t = fst (snd (civil_from_days (abs_sec t div 86400)))"

definition Day :: "Time \<Rightarrow> int" where
  "Day t = snd (snd (civil_from_days (abs_sec t div 86400)))"

definition Clock :: "Time \<Rightarrow> int \<times> int \<times> int" where
  "Clock t = (let s = abs_sec t mod 86400 in (s div 3600, (s mod 3600) div 60, s mod 60))"

text \<open>
  \<^verbatim>\<open>norm(hi, lo, base)\<close> carries the overflow of \<^verbatim>\<open>lo\<close> into \<^verbatim>\<open>hi\<close>, rounding downwards
  for a negative \<^verbatim>\<open>lo\<close>.
\<close>

definition norm :: "int \<Rightarrow> int \<Rightarrow> int \<Rightarrow> int \<times> int" where
  "norm hi lo base = (hi + lo div base, lo mod base)"

text \<open>
  \<^verbatim>\<open>time.Date\<close>: normalise the fields, count the seconds as if the fields were UTC, then
  subtract a zone offset. The offset is the one in force at the field value read as UTC,
  unless the instant it gives lies outside that period; then the offset in force at that
  instant is taken. For a local time that a transition skips or repeats the result is
  correct in one of the two zones, as the documentation of \<^verbatim>\<open>Date\<close> says.
\<close>

definition Date :: "int \<Rightarrow> int \<Rightarrow> int \<Rightarrow> int \<Rightarrow> int \<Rightarrow> int \<Rightarrow> int \<Rightarrow> location \<Rightarrow> Time" where
  "Date year month day hour minute sec ns l =
     (let (year1, m0) = norm year (month - 1) 12;
          month1 = m0 + 1;
          (sec1, nsec1) = norm sec ns 1000000000;
          (min1, sec2) = norm minute sec1 60;
          (hour1, min2) = norm hour min1 60;
          (day1, hour2) = norm day hour1 24;
          d = days_from_civil year1 month1 day1;
          unix = d * 86400 + hour2 * 3600 + min2 * 60 + sec2;
          (offset, start, end) = lookup l unix;
          offset' = (if offset \<noteq> 0 \<and> (unix - offset < start \<or> unix - offset \<ge> end)
                     then fst (lookup l (unix - offset)) else offset)
      in \<lparr>unix_sec = unix - offset', nsec = nsec1, loc = l\<rparr>)"

definition AddDate :: "Time \<Rightarrow> int \<Rightarrow> int \<Rightarrow> int \<Rightarrow> Time" where
  "AddDate t years months days =
     (let (hour, minute, sec) = Clock t
      in Date (Year t + years) (Month t + months) (Day t + days) hour minute sec (nsec t) (loc t))"

definition minDuration :: int where
  "minDuration = - (2 ^ 63)"

definition maxDuration :: int where
  "maxDuration = 2 ^ 63 - 1"

text \<open>\<^verbatim>\<open>t.Sub(u)\<close> is the difference in nanoseconds, saturated to the 64-bit range.\<close>

definition Sub :: "Time \<Rightarrow> Time \<Rightarrow> int" where
  "Sub t u =
     (let d = (unix_sec t - unix_sec u) * 1000000000 + (nsec t - nsec u)
      in if d < minDuration then minDuration else if d > maxDuration then maxDuration else d)"

text \<open>Addition of two \<^verbatim>\<open>int64\<close> values wraps around.\<close>

definition wrap64 :: "int \<Rightarrow> int" where
  "wrap64 x = (x + 2 ^ 63) mod 2 ^ 64 - 2 ^ 63"

definition Before :: "Time \<Rightarrow> Time \<Rightarrow> bool" where
  "Before t u = (unix_sec t < unix_sec u \<or> (unix_sec t = unix_sec u \<and> nsec t < nsec u))"


section \<open>BoundaryClock: the pure time functions of writer.go\<close>

definition Microsecond :: int where
  "Microsecond = 1000"

definition Second :: int where
  "Second = 1000000000"

definition Minute :: int where
  "Minute = 60 * Second"


definition extraDuration :: int where
  "extraDuration = Microsecond"

definition getLastMidnight :: "Time \<Rightarrow> Time" where
  "getLastMidnight now = Date (Year now) (Month now) (Day now) 0 0 0 0 (loc now)"

definition getNextMidnight :: "Time \<Rightarrow> Time" where
  "getNextMidnight givenTime =
     (let nextDay = AddDate givenTime 0 0 1
      in Date (Year nextDay) (Month nextDay) (Day nextDay) 0 0 0 0 (loc givenTime))"

definition getDurationToJustAfterMidnight :: "Time \<Rightarrow> int" where
  "getDurationToJustAfterMidnight givenTime =
     (let nextMidnight = getNextMidnight givenTime;
          durationToWait = Sub nextMidnight givenTime
      in wrap64 (durationToWait + extraDuration))"

section \<open>Formatting and strings\<close>

text \<open>
  \<^verbatim>\<open>fmt.Sprintf\<close> with the verb \<^verbatim>\<open>%0wd\<close>: the decimal digits of the magnitude, padded on
  the left with zeros to the width, where a minus sign takes one place of the width.
  The verb \<^verbatim>\<open>%s\<close> copies its string argument.
\<close>

fun dec :: "nat \<Rightarrow> string" where
  "dec n = (if n < 10 then [''0123456789'' ! n] else dec (n div 10) @ [''0123456789'' ! (n mod 10)])"

declare dec.simps [simp del]

definition fmt_0d :: "nat \<Rightarrow> int \<Rightarrow> string" where
  "fmt_0d wid v =
     (let negative = v < 0;
          u = nat \<bar>v\<bar>;
          prec = (if negative then wid - 1 else wid);
          buf = replicate (prec - length (dec u)) (CHR ''0'') @ dec u
      in if negative then CHR ''-'' # buf else buf)"

text \<open>
  \<^verbatim>\<open>strings.TrimSpace\<close> removes leading and trailing white space. Strings are byte
  lists; the model knows the six ASCII white space characters.
\<close>

definition isSpace :: "char \<Rightarrow> bool" where
  "isSpace c = (c \<in> {CHR 0x09, CHR 0x0A, CHR 0x0B, CHR 0x0C, CHR 0x0D, CHR '' ''})"

definition TrimSpace :: "string \<Rightarrow> string" where
  "TrimSpace s = rev (dropWhile isSpace (rev (dropWhile isSpace s)))"

section \<open>The Writer and its surroundings\<close>

type_synonym FileMode = "32 word"

text \<open>
  The struct \<^verbatim>\<open>Writer\<close>. The mutex has no value of its own in a sequential run; the field
  \<^verbatim>\<open>switchwriter\<close> holds the path of the file the switch writer is connected to, or
  \<open>None\<close> after \<^verbatim>\<open>SwitchTo(nil)\<close>.
\<close>

record Writer =
  loggingDisabled :: bool
  startOfToday :: Time
  logDir :: string
  leader :: string
  trailer :: string
  userName :: string
  groupName :: string
  logDirPermissions :: FileMode
  logFilePermissions :: FileMode
  switchwriter :: "string option"

text \<open>
  What the operating system contributes: the wall clock read by \<^verbatim>\<open>time.Now\<close>, the
  contents of the files, whether \<^verbatim>\<open>os.OpenFile\<close> and \<^verbatim>\<open>os.MkdirAll\<close> succeed on a path,
  and the lines written by \<^verbatim>\<open>log.Printf\<close>. Permissions and ownership are not recorded:
  the code discards the results of \<^verbatim>\<open>os.Chmod\<close> and of \<^verbatim>\<open>SetFileUserAndGroup\<close> when it
  opens a file. \<^verbatim>\<open>log.Fatal\<close> ends the process: the outcome \<open>Fatal\<close>.
\<close>

datatype diagnostic = CreateDirFailed string | OpenFileFailed string | OpenLogFailed string

record world =
  clock :: Time
  files :: "string \<Rightarrow> string option"
  can_open :: "string \<Rightarrow> bool"
  can_mkdir :: "string \<Rightarrow> bool"
  diag :: "diagnostic list"

datatype 'a outcome = is_Fatal: Fatal | Returns (result: 'a)

text \<open>A dynamically typed optional argument (\<^verbatim>\<open>any\<close>) of \<^verbatim>\<open>New\<close>.\<close>

datatype any = AnyInt int | AnyString string | AnyFileMode FileMode | AnyBool bool | AnyNil

text \<open>The type assertions \<^verbatim>\<open>args[i].(int)\<close> and \<^verbatim>\<open>args[i].(string)\<close> succeed on these.\<close>

fun isInt :: "any \<Rightarrow> bool" where
  "isInt (AnyInt u) = True"
| "isInt a = False"

fun isString :: "any \<Rightarrow> bool" where
  "isString (AnyString s) = True"
| "isString a = False"

definition getLogFileDetails :: "any list \<Rightarrow> FileMode \<times> FileMode \<times> string \<times> string" where
  "getLogFileDetails args =
     (if length args \<le> 0 then (0, 0, [], [])
      else
        (let dirPermissions =
               (if length args \<ge> 1
                then (case args ! 0 of AnyInt u \<Rightarrow> word_of_int u | _ \<Rightarrow> 0) else 0);
             filePermissions =
               (if length args \<ge> 2
                then (case args ! 1 of AnyInt u \<Rightarrow> word_of_int u | _ \<Rightarrow> 0) else 0);
             user =
               (if length args \<ge> 3
                then (case args ! 2 of AnyString s \<Rightarrow> TrimSpace s | _ \<Rightarrow> []) else []);
             grp =
               (if length args \<ge> 4
                then (case args ! 3 of AnyString s \<Rightarrow> TrimSpace s | _ \<Rightarrow> []) else [])
         in (dirPermissions, filePermissions, user, grp)))"

definition getLogPathname :: "Writer \<Rightarrow> Time \<Rightarrow> string" where
  "getLogPathname dw now =
     logDir dw @ ''/'' @ leader dw @ fmt_0d 4 (Year now) @ ''-'' @ fmt_0d 2 (Month now)
       @ ''-'' @ fmt_0d 2 (Day now) @ trailer dw"

text \<open>
  \<^verbatim>\<open>os.OpenFile(name, O_APPEND|O_CREATE|O_WRONLY, 0644)\<close> returns the file, created empty
  when it did not exist, or a nil file and an error.
\<close>

definition os_OpenFile :: "string \<Rightarrow> world \<Rightarrow> string option \<times> world" where
  "os_OpenFile name w =
     (if can_open w name
      then (Some name,
            w\<lparr>files := (files w)(name \<mapsto> (case files w name of None \<Rightarrow> [] | Some c \<Rightarrow> c))\<rparr>)
      else (None, w))"

text \<open>
  \<^verbatim>\<open>openFile\<close> logs a failure of \<^verbatim>\<open>os.OpenFile\<close> and carries on: the permissions and the
  owner are set (not recorded here), then \<^verbatim>\<open>file.Seek(0, 2)\<close> is called. On a nil file
  \<^verbatim>\<open>Seek\<close> returns \<^verbatim>\<open>os.ErrInvalid\<close>, and \<^verbatim>\<open>openFile\<close> calls \<^verbatim>\<open>log.Fatal\<close>; on the file just
  opened it succeeds. The error \<^verbatim>\<open>openFile\<close> returns is always nil: the second component
  of the result says whether it is non-nil.
\<close>

definition openFile :: "Writer \<Rightarrow> string \<Rightarrow> world \<Rightarrow> ((string option \<times> bool) \<times> world) outcome" where
  "openFile dw name w =
     (let (file, w1) = os_OpenFile name w;
          w2 = (if file = None then w1\<lparr>diag := diag w1 @ [OpenFileFailed name]\<rparr> else w1)
      in case file of
           None \<Rightarrow> Fatal
         | Some f \<Rightarrow> Returns ((file, False), w2))"

definition closeLog :: "Writer \<Rightarrow> Writer" where
  "closeLog dw = dw\<lparr>switchwriter := None\<rparr>"

definition openLog :: "Writer \<Rightarrow> world \<Rightarrow> (Writer \<times> world) outcome" where
  "openLog dw w =
     (let pathname = getLogPathname dw (startOfToday dw)
      in case openFile dw pathname w of
           Fatal \<Rightarrow> Fatal
         | Returns ((logFile, err), w1) \<Rightarrow>
             (let w2 = (if err then w1\<lparr>diag := diag w1 @ [OpenLogFailed pathname]\<rparr> else w1)
              in Returns (dw\<lparr>switchwriter := logFile\<rparr>, w2)))"

text \<open>
  \<^verbatim>\<open>createlogDirectory\<close> calls \<^verbatim>\<open>os.MkdirAll\<close> (with \<^verbatim>\<open>os.ModePerm\<close> when the permissions
  are zero) and logs its failure; the owner it may set afterwards is not recorded.
\<close>

definition createlogDirectory :: "string \<Rightarrow> string \<Rightarrow> string \<Rightarrow> FileMode \<Rightarrow> world \<Rightarrow> world" where
  "createlogDirectory directory owner grp permissions w =
     (if can_mkdir w directory then w else w\<lparr>diag := diag w @ [CreateDirFailed directory]\<rparr>)"

definition newWriter ::
  "Time \<Rightarrow> string \<Rightarrow> string \<Rightarrow> string \<Rightarrow> FileMode \<Rightarrow> FileMode \<Rightarrow> string \<Rightarrow> string \<Rightarrow> world
    \<Rightarrow> (Writer \<times> world) outcome" where
  "newWriter now dir ldr trl dirPermissions filePermissions user grp w =
     (let dw = \<lparr>loggingDisabled = False,
                startOfToday = getLastMidnight now,
                logDir = dir, leader = ldr, trailer = trl,
                userName = user, groupName = grp,
                logDirPermissions = dirPermissions,
                logFilePermissions = filePermissions,
                switchwriter = None\<rparr>;
          w1 = createlogDirectory dir user grp dirPermissions w
      in openLog dw w1)"

text \<open>
  \<^verbatim>\<open>New\<close>; the name of the operating system (\<^verbatim>\<open>ps.OSName\<close>) is a parameter. The
  goroutine it starts is \<^verbatim>\<open>logRotator\<close>, one turn of which is \<open>logRotator_cycle\<close> below.
\<close>

definition newDetails :: "string \<Rightarrow> any list \<Rightarrow> FileMode \<times> FileMode \<times> string \<times> string" where
  "newDetails OSName args =
     (if OSName \<noteq> ''windows'' then getLogFileDetails args else (0, 0, [], []))"

definition New ::
  "string \<Rightarrow> Time \<Rightarrow> string \<Rightarrow> string \<Rightarrow> string \<Rightarrow> any list \<Rightarrow> world \<Rightarrow> (Writer \<times> world) outcome" where
  "New OSName now dir ldr trl args w =
     (let dir1 = TrimSpace dir;
          dir2 = (if length dir1 = 0 then ''.'' else dir1);
          ldr1 = TrimSpace ldr;
          ldr2 = (if length ldr1 = 0 then ''daily.'' else ldr1);
          trl1 = TrimSpace trl;
          trl2 = (if length trl1 = 0 then ''.log'' else trl1);
          (dirPermissions, filePermissions, user, grp) = newDetails OSName args
      in newWriter now dir2 ldr2 trl2 dirPermissions filePermissions user grp w)"

text \<open>
  \<^verbatim>\<open>Write\<close> hands the buffer to the switch writer, which appends it to the file it is
  connected to and discards it when it is connected to none. (The count and the error
  \<^verbatim>\<open>Write\<close> returns are the sink's and are not modelled.)
\<close>

definition Write :: "Writer \<Rightarrow> string \<Rightarrow> world \<Rightarrow> world" where
  "Write dw buffer w =
     (case switchwriter dw of
        None \<Rightarrow> w
      | Some p \<Rightarrow>
          (case files w p of
             None \<Rightarrow> w
           | Some c \<Rightarrow> w\<lparr>files := (files w)(p \<mapsto> c @ buffer)\<rparr>))"

definition rotateLogs :: "Writer \<Rightarrow> Time \<Rightarrow> world \<Rightarrow> (Writer \<times> world) outcome" where
  "rotateLogs dw now w =
     (let dw1 = closeLog dw;
          dw2 = dw1\<lparr>startOfToday := getLastMidnight now\<rparr>
      in openLog dw2 w)"

text \<open>
  \<^verbatim>\<open>time.Sleep(d)\<close> returns at once for \<open>d \<le> 0\<close> and otherwise after at least \<open>d\<close>;
  \<open>late\<close> is the time by which the wake-up overshoots.
\<close>

definition Add :: "Time \<Rightarrow> int \<Rightarrow> Time" where
  "Add t d =
     (let total = nsec t + d
      in t\<lparr>unix_sec := unix_sec t + total div 1000000000, nsec := total mod 1000000000\<rparr>)"

definition Sleep :: "int \<Rightarrow> int \<Rightarrow> world \<Rightarrow> world" where
  "Sleep d late w = w\<lparr>clock := Add (clock w) (max d 0 + late)\<rparr>"

definition waitToRotate :: "Time \<Rightarrow> int \<Rightarrow> world \<Rightarrow> world" where
  "waitToRotate now late w =
     (let waitTime = getDurationToJustAfterMidnight now
      in Sleep waitTime late w)"

definition waitAndRotate :: "Writer \<Rightarrow> Time \<Rightarrow> int \<Rightarrow> world \<Rightarrow> (Writer \<times> world) outcome" where
  "waitAndRotate dw now late w =
     (let w1 = waitToRotate now late w
      in rotateLogs dw now w1)"

text \<open>One turn of the loop of \<^verbatim>\<open>logRotator\<close>: read the clock, then wait and rotate.\<close>

definition logRotator_cycle :: "Writer \<Rightarrow> int \<Rightarrow> world \<Rightarrow> (Writer \<times> world) outcome" where
  "logRotator_cycle dw late w =
     (let now = clock w
      in waitAndRotate dw now late w)"

section \<open>Sequences of operations, and the inputs of the examples\<close>


text \<open>
  The calls a program and the rotator make on one Writer, in the order in which the
  mutex admits them.
\<close>

datatype op = OpWrite string | OpRotate Time

fun run :: "op list \<Rightarrow> Writer \<Rightarrow> world \<Rightarrow> (Writer \<times> world) outcome" where
  "run [] dw w = Returns (dw, w)"
| "run (OpWrite buffer # ops) dw w = run ops dw (Write dw buffer w)"
| "run (OpRotate now # ops) dw w =
     (case rotateLogs dw now w of
        Fatal \<Rightarrow> Fatal
      | Returns (dw1, w1) \<Rightarrow> run ops dw1 w1)"


subsection \<open>Goroutines under the mutex\<close>

text \<open>
  \<^verbatim>\<open>Write\<close> and \<^verbatim>\<open>rotateLogs\<close> as the steps a goroutine takes: both begin with
  \<^verbatim>\<open>dw.logMutex.Lock()\<close> and end, by \<^verbatim>\<open>defer\<close>, with \<^verbatim>\<open>dw.logMutex.Unlock()\<close>; between them
  \<^verbatim>\<open>Write\<close> calls the switch writer and \<^verbatim>\<open>rotateLogs\<close> closes the log, sets the day and opens
  the log.
\<close>

datatype action = ALock | ASwWrite string | ACloseLog | ASetDay Time | AOpenLog | AUnlock

fun program :: "op \<Rightarrow> action list" where
  "program (OpWrite buffer) = [ALock, ASwWrite buffer, AUnlock]"
| "program (OpRotate now) = [ALock, ACloseLog, ASetDay now, AOpenLog, AUnlock]"

text \<open>
  A process: the goroutine that holds the mutex (if any), the Writer, the machine, what
  each goroutine has still to do, and whether \<^verbatim>\<open>log.Fatal\<close> has ended the process.
  \<open>step i\<close> lets goroutine \<open>i\<close> take its next step; \<^verbatim>\<open>Lock\<close> can be taken only while no
  goroutine holds the mutex, and a goroutine that cannot move leaves the process as it is.
  \<open>exec\<close> follows a schedule, the order in which the goroutines are given a turn.
\<close>

record process =
  mutex :: "nat option"
  the_writer :: Writer
  the_world :: world
  goroutines :: "action list list"
  exited :: bool

definition advance :: "nat \<Rightarrow> action list \<Rightarrow> process \<Rightarrow> process" where
  "advance i rest s = s\<lparr>goroutines := (goroutines s)[i := rest]\<rparr>"

fun perform :: "nat \<Rightarrow> action \<Rightarrow> action list \<Rightarrow> process \<Rightarrow> process" where
  "perform i ALock rest s =
     (if mutex s = None then advance i rest (s\<lparr>mutex := Some i\<rparr>) else s)"
| "perform i AUnlock rest s = advance i rest (s\<lparr>mutex := None\<rparr>)"
| "perform i (ASwWrite buffer) rest s =
     advance i rest (s\<lparr>the_world := Write (the_writer s) buffer (the_world s)\<rparr>)"
| "perform i ACloseLog rest s = advance i rest (s\<lparr>the_writer := closeLog (the_writer s)\<rparr>)"
| "perform i (ASetDay now) rest s =
     advance i rest (s\<lparr>the_writer := (the_writer s)\<lparr>startOfToday := getLastMidnight now\<rparr>\<rparr>)"
| "perform i AOpenLog rest s =
     (case openLog (the_writer s) (the_world s) of
        Fatal \<Rightarrow> s\<lparr>exited := True\<rparr>
      | Returns (dw, w) \<Rightarrow> advance i rest (s\<lparr>the_writer := dw, the_world := w\<rparr>))"

definition step :: "nat \<Rightarrow> process \<Rightarrow> process" where
  "step i s =
     (if exited s \<or> length (goroutines s) \<le> i then s
      else case goroutines s ! i of
             [] \<Rightarrow> s
           | a # rest \<Rightarrow> perform i a rest s)"

fun exec :: "nat list \<Rightarrow> process \<Rightarrow> process" where
  "exec [] s = s"
| "exec (i # schedule) s = exec schedule (step i s)"

definition start :: "Writer \<Rightarrow> world \<Rightarrow> op list \<Rightarrow> process" where
  "start dw w ops =
     \<lparr>mutex = None, the_writer = dw, the_world = w, goroutines = map program ops,
      exited = False\<rparr>"

definition finished :: "process \<Rightarrow> bool" where
  "finished s = (\<not> exited s \<and> list_all (\<lambda>g. g = []) (goroutines s))"

text \<open>
  What the rest of the steps of one goroutine does when no other goroutine moves, the
  operations of the goroutines that have not finished, and the shape of the steps that
  remain to the holder of the mutex.
\<close>

fun finish :: "action list \<Rightarrow> Writer \<Rightarrow> world \<Rightarrow> (Writer \<times> world) outcome" where
  "finish [] dw w = Returns (dw, w)"
| "finish (ALock # rest) dw w = finish rest dw w"
| "finish (AUnlock # rest) dw w = finish rest dw w"
| "finish (ASwWrite buffer # rest) dw w = finish rest dw (Write dw buffer w)"
| "finish (ACloseLog # rest) dw w = finish rest (closeLog dw) w"
| "finish (ASetDay now # rest) dw w = finish rest (dw\<lparr>startOfToday := getLastMidnight now\<rparr>) w"
| "finish (AOpenLog # rest) dw w =
     (case openLog dw w of
        Fatal \<Rightarrow> Fatal
      | Returns (dw1, w1) \<Rightarrow> finish rest dw1 w1)"

definition pending :: "op list \<Rightarrow> action list list \<Rightarrow> op list" where
  "pending ops gs = map fst (filter (\<lambda>(x, g). g \<noteq> []) (zip ops gs))"

definition critical :: "action list \<Rightarrow> bool" where
  "critical rest =
     (rest \<noteq> [] \<and> ALock \<notin> set rest \<and> AUnlock \<notin> set (butlast rest) \<and> last rest = AUnlock)"

text \<open>
  The invariant of the interleaved runs: the operations of the goroutines that have
  finished, in the order \<open>done\<close> in which they took the mutex, lead from the initial
  Writer and machine to a state from which the holder of the mutex, left alone, completes
  its own operation; every other goroutine has either not begun or finished.
\<close>

definition idle :: "op list \<Rightarrow> action list list \<Rightarrow> nat \<Rightarrow> bool" where
  "idle ops gs i = (gs ! i = program (ops ! i) \<or> gs ! i = [])"

definition serial :: "Writer \<Rightarrow> world \<Rightarrow> op list \<Rightarrow> process \<Rightarrow> bool" where
  "serial dw0 w0 ops s =
     (exited s \<or>
      (length (goroutines s) = length ops \<and>
       (\<exists>done dwd wd.
          run done dw0 w0 = Returns (dwd, wd) \<and>
          mset done + mset (pending ops (goroutines s)) = mset ops \<and>
          (case mutex s of
             None \<Rightarrow>
               the_writer s = dwd \<and> the_world s = wd \<and>
               (\<forall>i < length ops. idle ops (goroutines s) i)
           | Some h \<Rightarrow>
               h < length ops \<and> critical (goroutines s ! h) \<and>
               finish (goroutines s ! h) (the_writer s) (the_world s) = run [ops ! h] dwd wd \<and>
               (\<forall>i < length ops. i \<noteq> h \<longrightarrow> idle ops (goroutines s) i)))))"

fun buffer_of :: "op \<Rightarrow> string" where
  "buffer_of (OpWrite buffer) = buffer"
| "buffer_of (OpRotate now) = []"

text \<open>
  The file name as the specification words it: directory, a slash, the prefix, the year
  with its digits padded with zeros to four, the month and the day padded to two, the
  suffix. A negative number keeps its sign in front of the padded digits.
\<close>

definition zero_pad :: "nat \<Rightarrow> int \<Rightarrow> string" where
  "zero_pad wid v =
     (if v < 0 then ''-'' else []) @ replicate (wid - length (dec (nat \<bar>v\<bar>))) (CHR ''0'')
       @ dec (nat \<bar>v\<bar>)"

definition pathFor :: "string \<Rightarrow> string \<Rightarrow> int \<times> int \<times> int \<Rightarrow> string \<Rightarrow> string" where
  "pathFor directory prefix date suffix =
     (case date of (y, m, d) \<Rightarrow>
        directory @ ''/'' @ prefix @ zero_pad 4 y @ ''-'' @ zero_pad 2 m @ ''-'' @ zero_pad 2 d
          @ suffix)"

text \<open>
  The transitions of the zone America/Havana between November 2023 and November 2024:
  summer time (UTC-4) ends on 2023-11-05 at 05:00 UTC, begins on 2024-03-10 at 05:00 UTC,
  which is midnight of local standard time (UTC-5), and ends on 2024-11-03 at 05:00 UTC.
  The local times from 00:00 to 00:59 of 10 March 2024 do not exist there.
\<close>

definition Havana :: location where
  "Havana = Location (- 14400) [(1699160400, - 18000), (1710046800, - 14400), (1730610000, - 18000)]"

text \<open>The transitions of Europe/Paris in 2020.\<close>

definition Paris :: location where
  "Paris = Location 3600 [(1585443600, 7200), (1603587600, 3600)]"

text \<open>A Writer as \<^verbatim>\<open>newWriter\<close> builds it, and a machine on which every file opens.\<close>

definition a_writer :: "Time \<Rightarrow> string \<Rightarrow> string \<Rightarrow> string \<Rightarrow> Writer" where
  "a_writer now dir ldr trl =
     \<lparr>loggingDisabled = False, startOfToday = getLastMidnight now,
      logDir = dir, leader = ldr, trailer = trl, userName = [], groupName = [],
      logDirPermissions = 0, logFilePermissions = 0, switchwriter = None\<rparr>"

definition a_world :: "Time \<Rightarrow> bool \<Rightarrow> world" where
  "a_world now ok =
     \<lparr>clock = now, files = (\<lambda>p. None), can_open = (\<lambda>p. ok), can_mkdir = (\<lambda>p. ok), diag = []\<rparr>"

text \<open>
  The scenario of \<^verbatim>\<open>TestRollover\<close>: a Writer made half a second before midnight, a rotation
  with a time of the next day, and the writes of \<^verbatim>\<open>hello\<close> and \<^verbatim>\<open>world\<close>, here by three
  goroutines (0 rotates, 1 and 2 write). In the schedule goroutine 0 asks for the mutex
  while goroutine 1 holds it, and goroutine 2 asks twice while the rotation is under way.
\<close>

definition rollover_writer :: Writer where
  "rollover_writer =
     fst (result (newWriter (Date 2020 2 14 23 59 59 500000000 Paris) ''.'' ''foo.'' ''.bar'' 0 0 [] []
       (a_world (Date 2020 2 14 23 59 59 500000000 Paris) True)))"

definition rollover_world :: world where
  "rollover_world =
     snd (result (newWriter (Date 2020 2 14 23 59 59 500000000 Paris) ''.'' ''foo.'' ''.bar'' 0 0 [] []
       (a_world (Date 2020 2 14 23 59 59 500000000 Paris) True)))"

definition tomorrow :: Time where
  "tomorrow = Date 2020 2 15 14 35 0 0 Paris"

definition rollover_run :: process where
  "rollover_run =
     exec [1, 1, 0, 1, 0, 0, 2, 0, 2, 0, 0, 2, 2, 2]
       (start rollover_writer rollover_world (OpRotate tomorrow # map OpWrite [''hello'', ''world'']))"

section \<open>The calendar functions are inverse to each other\<close>


lemma civil_from_days_inverse:
  assumes "civil_from_days z = (y, m, d)"
  shows "days_from_civil y m d = z \<and> 1 \<le> m \<and> m \<le> 12 \<and> 1 \<le> d \<and> d \<le> 31"
proof -
  define era where "era = (z + 719468) div 146097"
  define doe where "doe = (z + 719468) mod 146097"
  define c where "c = min 3 (doe div 36524)"
  define dc where "dc = doe - 36524 * c"
  define q where "q = dc div 1461"
  define dq where "dq = dc mod 1461"
  define yq where "yq = min 3 (dq div 365)"
  define doy where "doy = dq - 365 * yq"
  define yoe where "yoe = 100 * c + 4 * q + yq"
  define mp where "mp = (5 * doy + 2) div 153"
  define r where "r = (5 * doy + 2) mod 153"
  define e where "e = (153 * mp + 2) div 5"
  define f where "f = (153 * mp + 2) mod 5"
  have z: "z = era * 146097 + doe - 719468"
    unfolding era_def doe_def by simp
  have doe: "0 \<le> doe" "doe < 146097"
    unfolding doe_def by simp_all
  have c: "0 \<le> c" "c \<le> 3"
    unfolding c_def using doe by simp_all
  have dc: "0 \<le> dc" "dc \<le> 36524"
    unfolding dc_def c_def using doe by (auto simp: min_def)
  have q: "0 \<le> q" "q \<le> 24"
    unfolding q_def using dc by simp_all
  have dq: "0 \<le> dq" "dq < 1461" "dc = 1461 * q + dq"
    unfolding dq_def q_def by simp_all
  have yq: "0 \<le> yq" "yq \<le> 3"
    unfolding yq_def using dq by simp_all
  have doy: "0 \<le> doy" "doy \<le> 365"
    unfolding doy_def yq_def using dq by (auto simp: min_def)
  have yoe: "0 \<le> yoe" "yoe < 400"
    unfolding yoe_def using c q yq by simp_all
  have yoe4: "yoe div 4 = 25 * c + q"
    unfolding yoe_def using yq by simp
  have yoe100: "yoe div 100 = c"
    unfolding yoe_def using q yq by simp
  have mp: "0 \<le> mp" "mp \<le> 11"
    unfolding mp_def using doy by simp_all
  have r: "5 * doy + 2 = 153 * mp + r" "0 \<le> r" "r < 153"
    unfolding mp_def r_def by simp_all
  have f: "153 * mp + 2 = 5 * e + f" "0 \<le> f" "f < 5"
    unfolding e_def f_def by simp_all
  have doe_eq: "yoe * 365 + yoe div 4 - yoe div 100 + doy = doe"
    unfolding yoe4 yoe100 unfolding yoe_def doy_def using dq(3) dc_def by simp
  have era_eq: "(yoe + 400 * era) div 400 = era" "(yoe + 400 * era) mod 400 = yoe"
    using yoe by simp_all
  have "civil_from_days z =
      (yoe + 400 * era + (if (if mp < 10 then mp + 3 else mp - 9) \<le> 2 then 1 else 0),
       (if mp < 10 then mp + 3 else mp - 9), doy - e + 1)"
    by (simp only: civil_from_days_def Let_def era_def doe_def c_def dc_def q_def dq_def yq_def
      doy_def yoe_def mp_def e_def)
  with assms have res:
    "y = yoe + 400 * era + (if (if mp < 10 then mp + 3 else mp - 9) \<le> 2 then 1 else 0)"
    "m = (if mp < 10 then mp + 3 else mp - 9)"
    "d = doy - e + 1"
    by auto
  have d1: "1 \<le> d"
    unfolding res(3) using r f by linarith
  have d31: "d \<le> 31"
    unfolding res(3) using r f by linarith
  have m: "1 \<le> m" "m \<le> 12"
    unfolding res(2) using mp by auto
  have doy_eq: "e + d - 1 = doy"
    unfolding res(3) by simp
  have "days_from_civil y m d = era * 146097 + doe - 719468"
  proof (cases "mp < 10")
    case True
    then have my: "m = mp + 3" "y = yoe + 400 * era"
      using res mp by simp_all
    have "days_from_civil y m d =
        ((yoe + 400 * era) div 400) * 146097
        + (((yoe + 400 * era) mod 400) * 365 + ((yoe + 400 * era) mod 400) div 4
           - ((yoe + 400 * era) mod 400) div 100 + (e + d - 1)) - 719468"
      unfolding days_from_civil_def Let_def my e_def using mp by simp
    then show ?thesis
      unfolding era_eq doy_eq doe_eq .
  next
    case False
    then have my: "m = mp - 9" "y = yoe + 400 * era + 1"
      using res mp by simp_all
    have "days_from_civil y m d =
        ((yoe + 400 * era) div 400) * 146097
        + (((yoe + 400 * era) mod 400) * 365 + ((yoe + 400 * era) mod 400) div 4
           - ((yoe + 400 * era) mod 400) div 100 + (e + d - 1)) - 719468"
      unfolding days_from_civil_def Let_def my e_def using mp False by simp
    then show ?thesis
      unfolding era_eq doy_eq doe_eq .
  qed
  then show ?thesis using z d1 d31 m by simp
qed

section \<open>Midnights in a zone with a fixed offset\<close>



lemma civil_fields:
  "civil_from_days z = (fst (civil_from_days z), fst (snd (civil_from_days z)), snd (snd (civil_from_days z)))"
  by simp







section \<open>The waiting time in the scenarios of the tests\<close>


section \<open>The waiting time is positive in a zone with a fixed offset\<close>






section \<open>A zone whose summer time begins at midnight\<close>

text \<open>
  Claim C6 says that \<^verbatim>\<open>getNextMidnight\<close> is later than its argument and a midnight of
  the argument's zone, for every instant, so that the waiting time is positive. In
  America/Havana at 23:30 on 9 March 2024 the code computes otherwise: the local midnight
  of 10 March does not exist, \<^verbatim>\<open>time.Date\<close> resolves it with the offset of the other side
  of the transition, and \<^verbatim>\<open>getNextMidnight\<close> is 23:00 of 9 March, half an hour before
  its argument; the waiting time is negative.
\<close>

theorem getNextMidnight_Havana:
  "Before (getNextMidnight (Date 2024 3 9 23 30 0 0 Havana)) (Date 2024 3 9 23 30 0 0 Havana)
   \<and> Clock (getNextMidnight (Date 2024 3 9 23 30 0 0 Havana)) = (23, 0, 0)
   \<and> Day (getNextMidnight (Date 2024 3 9 23 30 0 0 Havana)) = 9
   \<and> getDurationToJustAfterMidnight (Date 2024 3 9 23 30 0 0 Havana) = - (30 * Minute) + extraDuration
   \<and> getDurationToJustAfterMidnight (Date 2024 3 9 23 30 0 0 Havana) < 0"
  by code_simp

section \<open>Opening the log and rotating it\<close>

text \<open>
  \<^verbatim>\<open>openFile\<close> returns exactly when \<^verbatim>\<open>os.OpenFile\<close> succeeds; a rotation that returns has
  set \<^verbatim>\<open>startOfToday\<close> to \<^verbatim>\<open>getLastMidnight\<close> of the instant it was given, whatever the
  field held before, and has connected the switch writer to the file named after it.
\<close>

lemma openFile_failure: "\<not> can_open w name \<Longrightarrow> openFile dw name w = Fatal"
  by (simp add: openFile_def os_OpenFile_def)

lemma openFile_success:
  "can_open w name \<Longrightarrow>
   openFile dw name w = Returns ((Some name, False), snd (os_OpenFile name w))"
  by (simp add: openFile_def os_OpenFile_def)

lemma openLog_failure:
  "\<not> can_open w (getLogPathname dw (startOfToday dw)) \<Longrightarrow> openLog dw w = Fatal"
  by (simp add: openLog_def Let_def openFile_failure)

lemma openLog_success:
  "can_open w (getLogPathname dw (startOfToday dw)) \<Longrightarrow>
   openLog dw w =
     Returns (dw\<lparr>switchwriter := Some (getLogPathname dw (startOfToday dw))\<rparr>,
              snd (os_OpenFile (getLogPathname dw (startOfToday dw)) w))"
  by (simp add: openLog_def Let_def openFile_success)

lemma openLog_Returns:
  assumes "openLog dw w = Returns (dw', w')"
  shows "dw' = dw\<lparr>switchwriter := Some (getLogPathname dw (startOfToday dw))\<rparr>"
proof (cases "can_open w (getLogPathname dw (startOfToday dw))")
  case True
  then show ?thesis using assms by (simp add: openLog_success)
next
  case False
  then show ?thesis using assms by (simp add: openLog_failure)
qed

lemma getLogPathname_cong:
  "logDir dw' = logDir dw \<Longrightarrow> leader dw' = leader dw \<Longrightarrow> trailer dw' = trailer dw \<Longrightarrow>
   getLogPathname dw' t = getLogPathname dw t"
  by (simp add: getLogPathname_def)

lemma rotateLogs_Returns:
  assumes "rotateLogs dw now w = Returns (dw', w')"
  shows "dw' = dw\<lparr>startOfToday := getLastMidnight now,
                 switchwriter := Some (getLogPathname dw (getLastMidnight now))\<rparr>"
proof -
  define dw2 where "dw2 = (closeLog dw)\<lparr>startOfToday := getLastMidnight now\<rparr>"
  have "openLog dw2 w = Returns (dw', w')"
    using assms by (simp add: rotateLogs_def Let_def dw2_def)
  then have "dw' = dw2\<lparr>switchwriter := Some (getLogPathname dw2 (startOfToday dw2))\<rparr>"
    by (rule openLog_Returns)
  moreover have "getLogPathname dw2 (startOfToday dw2) = getLogPathname dw (getLastMidnight now)"
    by (simp add: dw2_def closeLog_def getLogPathname_def)
  ultimately show ?thesis
    by (simp add: dw2_def closeLog_def)
qed

lemma rotateLogs_success:
  assumes "can_open w (getLogPathname dw (getLastMidnight now))"
  shows "\<not> is_Fatal (rotateLogs dw now w)"
proof -
  define dw2 where "dw2 = (closeLog dw)\<lparr>startOfToday := getLastMidnight now\<rparr>"
  have "getLogPathname dw2 (startOfToday dw2) = getLogPathname dw (getLastMidnight now)"
    by (simp add: dw2_def closeLog_def getLogPathname_def)
  then have "can_open w (getLogPathname dw2 (startOfToday dw2))"
    using assms by simp
  then show ?thesis
    by (simp add: rotateLogs_def Let_def dw2_def [symmetric] openLog_success)
qed

lemma logRotator_cycle_Returns:
  assumes "logRotator_cycle dw late w = Returns (dw', w')"
  shows "startOfToday dw' = getLastMidnight (clock w)"
proof -
  have "rotateLogs dw (clock w) (waitToRotate (clock w) late w) = Returns (dw', w')"
    using assms by (simp add: logRotator_cycle_def waitAndRotate_def Let_def)
  then have "dw' = dw\<lparr>startOfToday := getLastMidnight (clock w),
      switchwriter := Some (getLogPathname dw (getLastMidnight (clock w)))\<rparr>"
    by (rule rotateLogs_Returns)
  then show ?thesis
    by simp
qed


text \<open>
  Claim C2 says that a failure of \<^verbatim>\<open>os.OpenFile\<close> is only logged and leaves the Writer
  with no sink, the process carrying on. The code logs the failure and then calls
  \<^verbatim>\<open>Seek\<close> on the nil file, whose error it hands to \<^verbatim>\<open>log.Fatal\<close>: on a machine where the
  file cannot be opened, \<^verbatim>\<open>openFile\<close>, \<^verbatim>\<open>openLog\<close>, \<^verbatim>\<open>newWriter\<close> and \<^verbatim>\<open>rotateLogs\<close> all
  end the process.
\<close>

theorem openFile_failure_is_fatal:
  "\<not> can_open (a_world (Date 2020 2 14 1 2 3 4 UTC) False) ''/proc/none/daily.2020-02-14.log''
   \<and> is_Fatal (openFile (a_writer (Date 2020 2 14 1 2 3 4 UTC) ''/proc/none'' ''daily.'' ''.log'')
        ''/proc/none/daily.2020-02-14.log'' (a_world (Date 2020 2 14 1 2 3 4 UTC) False))
   \<and> is_Fatal (openLog (a_writer (Date 2020 2 14 1 2 3 4 UTC) ''/proc/none'' ''daily.'' ''.log'')
        (a_world (Date 2020 2 14 1 2 3 4 UTC) False))
   \<and> is_Fatal (newWriter (Date 2020 2 14 1 2 3 4 UTC) ''/proc/none'' ''daily.'' ''.log'' 0 0 [] []
        (a_world (Date 2020 2 14 1 2 3 4 UTC) False))
   \<and> is_Fatal (rotateLogs (a_writer (Date 2020 2 14 1 2 3 4 UTC) ''/proc/none'' ''daily.'' ''.log'')
        (Date 2020 2 15 0 0 0 1000 UTC) (a_world (Date 2020 2 15 0 0 0 1000 UTC) False))"
  by code_simp


text \<open>
  Claim C1 says that one turn of \<^verbatim>\<open>logRotator\<close> rotates with a time sampled after the
  sleep, so that \<^verbatim>\<open>startOfToday\<close> becomes the start of the new day. \<^verbatim>\<open>waitAndRotate\<close> hands
  \<^verbatim>\<open>rotateLogs\<close> the time it was given before sleeping. Started at 23:59:59.5 on
  14 February 2020 (UTC) and woken exactly on time, at 00:00:00.000001 on 15 February, the
  turn leaves \<^verbatim>\<open>startOfToday\<close> at midnight of 14 February, not at \<^verbatim>\<open>getLastMidnight\<close> of the
  wake-up time, and reopens the file of 14 February.
\<close>

theorem logRotator_cycle_uses_stale_time:
  "\<not> is_Fatal (logRotator_cycle (a_writer (Date 2020 2 14 23 59 59 500000000 UTC) ''.'' ''daily.'' ''.log'')
        0 (a_world (Date 2020 2 14 23 59 59 500000000 UTC) True))
   \<and> clock (snd (result (logRotator_cycle
        (a_writer (Date 2020 2 14 23 59 59 500000000 UTC) ''.'' ''daily.'' ''.log'')
        0 (a_world (Date 2020 2 14 23 59 59 500000000 UTC) True))))
      = Date 2020 2 15 0 0 0 1000 UTC
   \<and> startOfToday (fst (result (logRotator_cycle
        (a_writer (Date 2020 2 14 23 59 59 500000000 UTC) ''.'' ''daily.'' ''.log'')
        0 (a_world (Date 2020 2 14 23 59 59 500000000 UTC) True))))
      = Date 2020 2 14 0 0 0 0 UTC
   \<and> getLastMidnight (Date 2020 2 15 0 0 0 1000 UTC) = Date 2020 2 15 0 0 0 0 UTC
   \<and> switchwriter (fst (result (logRotator_cycle
        (a_writer (Date 2020 2 14 23 59 59 500000000 UTC) ''.'' ''daily.'' ''.log'')
        0 (a_world (Date 2020 2 14 23 59 59 500000000 UTC) True))))
      = Some ''./daily.2020-02-14.log''"
  by code_simp


text \<open>
  Claim C4 says that \<^verbatim>\<open>rotateLogs\<close> sets \<^verbatim>\<open>startOfToday\<close> to the midnight of the calendar
  day that contains \<open>now\<close>, so that the file opened is named for that day. The field is
  always \<^verbatim>\<open>getLastMidnight now\<close> (lemma \<open>rotateLogs_Returns\<close>), but in America/Havana at
  noon of 10 March 2024, the day summer time begins at midnight, \<^verbatim>\<open>getLastMidnight\<close> is
  23:00 of 9 March and the file opened is the one of 9 March.
\<close>

theorem rotateLogs_Havana:
  "\<not> is_Fatal (rotateLogs (a_writer (Date 2024 3 9 8 0 0 0 Havana) ''.'' ''daily.'' ''.log'')
        (Date 2024 3 10 12 0 0 0 Havana) (a_world (Date 2024 3 10 12 0 0 0 Havana) True))
   \<and> (Year (Date 2024 3 10 12 0 0 0 Havana), Month (Date 2024 3 10 12 0 0 0 Havana),
       Day (Date 2024 3 10 12 0 0 0 Havana)) = (2024, 3, 10)
   \<and> Clock (Date 2024 3 10 12 0 0 0 Havana) = (12, 0, 0)
   \<and> Day (startOfToday (fst (result (rotateLogs
        (a_writer (Date 2024 3 9 8 0 0 0 Havana) ''.'' ''daily.'' ''.log'')
        (Date 2024 3 10 12 0 0 0 Havana) (a_world (Date 2024 3 10 12 0 0 0 Havana) True))))) = 9
   \<and> Clock (startOfToday (fst (result (rotateLogs
        (a_writer (Date 2024 3 9 8 0 0 0 Havana) ''.'' ''daily.'' ''.log'')
        (Date 2024 3 10 12 0 0 0 Havana) (a_world (Date 2024 3 10 12 0 0 0 Havana) True)))))
      = (23, 0, 0)
   \<and> switchwriter (fst (result (rotateLogs
        (a_writer (Date 2024 3 9 8 0 0 0 Havana) ''.'' ''daily.'' ''.log'')
        (Date 2024 3 10 12 0 0 0 Havana) (a_world (Date 2024 3 10 12 0 0 0 Havana) True))))
      = Some ''./daily.2024-03-09.log''"
  by code_simp

section \<open>The day of the Writer along a sequence of operations\<close>










section \<open>The name of the log file\<close>

lemma fmt_0d_nonneg: "0 \<le> v \<Longrightarrow> fmt_0d wid v = zero_pad wid v"
  by (simp add: fmt_0d_def zero_pad_def Let_def)

lemma Month_Day_positive: "1 \<le> Month t \<and> Month t \<le> 12 \<and> 1 \<le> Day t \<and> Day t \<le> 31"
  using civil_from_days_inverse [OF civil_fields [of "abs_sec t div 86400"]]
  by (simp add: Month_def Day_def)


text \<open>
  Claim C5, as the code has it. For every Writer and every time whose year is not
  negative, \<^verbatim>\<open>getLogPathname\<close> is the directory, a slash, the leader, the year padded with
  zeros to four digits, a hyphen, the month padded to two digits, a hyphen, the day padded
  to two digits, and the trailer. The witness is the example of the specification:
  leader \<^verbatim>\<open>payments.\<close> and trailer \<^verbatim>\<open>.log\<close> on 14 February 2026.
\<close>

theorem getLogPathname_format:
  assumes "0 \<le> Year now"
  shows "getLogPathname dw now =
    pathFor (logDir dw) (leader dw) (Year now, Month now, Day now) (trailer dw)"
proof -
  have "0 \<le> Month now" "0 \<le> Day now"
    using Month_Day_positive [of now] by simp_all
  then show ?thesis
    using assms by (simp add: getLogPathname_def pathFor_def fmt_0d_nonneg)
qed

theorem getLogPathname_format_witness:
  "0 \<le> Year (Date 2026 2 14 9 30 0 0 UTC)
   \<and> getLogPathname (a_writer (Date 2026 2 14 9 30 0 0 UTC) ''logs'' ''payments.'' ''.log'')
        (Date 2026 2 14 9 30 0 0 UTC) = ''logs/payments.2026-02-14.log''"
proof -
  have y: "0 \<le> Year (Date 2026 2 14 9 30 0 0 UTC)"
    by code_simp
  have p: "pathFor (logDir (a_writer (Date 2026 2 14 9 30 0 0 UTC) ''logs'' ''payments.'' ''.log''))
      (leader (a_writer (Date 2026 2 14 9 30 0 0 UTC) ''logs'' ''payments.'' ''.log''))
      (Year (Date 2026 2 14 9 30 0 0 UTC), Month (Date 2026 2 14 9 30 0 0 UTC),
       Day (Date 2026 2 14 9 30 0 0 UTC))
      (trailer (a_writer (Date 2026 2 14 9 30 0 0 UTC) ''logs'' ''payments.'' ''.log''))
    = ''logs/payments.2026-02-14.log''"
    by code_simp
  show ?thesis
    using getLogPathname_format [OF y, of "a_writer (Date 2026 2 14 9 30 0 0 UTC) ''logs'' ''payments.'' ''.log''"]
      y p by simp
qed


text \<open>
  For a negative year the verb \<^verbatim>\<open>%04d\<close> counts the sign as one of the four places: the year
  -5 is written with three digits.
\<close>

theorem getLogPathname_negative_year_counterexample:
  "Year (Date (- 5) 2 14 9 30 0 0 UTC) = - 5
   \<and> getLogPathname (a_writer (Date (- 5) 2 14 9 30 0 0 UTC) ''logs'' ''payments.'' ''.log'')
        (Date (- 5) 2 14 9 30 0 0 UTC) = ''logs/payments.-005-02-14.log''
   \<and> pathFor ''logs'' ''payments.'' (- 5, 2, 14) ''.log'' = ''logs/payments.-0005-02-14.log''
   \<and> getLogPathname (a_writer (Date (- 5) 2 14 9 30 0 0 UTC) ''logs'' ''payments.'' ''.log'')
        (Date (- 5) 2 14 9 30 0 0 UTC) \<noteq> pathFor ''logs'' ''payments.'' (- 5, 2, 14) ''.log''"
  by code_simp


section \<open>The optional arguments of New\<close>

lemma getLogFileDetails_components:
  "getLogFileDetails args =
    ((if 1 \<le> length args then (case args ! 0 of AnyInt u \<Rightarrow> word_of_int u | _ \<Rightarrow> 0) else 0),
     (if 2 \<le> length args then (case args ! 1 of AnyInt u \<Rightarrow> word_of_int u | _ \<Rightarrow> 0) else 0),
     (if 3 \<le> length args then (case args ! 2 of AnyString s \<Rightarrow> TrimSpace s | _ \<Rightarrow> []) else []),
     (if 4 \<le> length args then (case args ! 3 of AnyString s \<Rightarrow> TrimSpace s | _ \<Rightarrow> []) else []))"
  by (simp add: getLogFileDetails_def Let_def)

lemma not_isInt: "\<not> isInt a \<Longrightarrow> (case a of AnyInt u \<Rightarrow> f u | _ \<Rightarrow> d) = d"
  by (cases a) simp_all

lemma not_isString: "\<not> isString a \<Longrightarrow> (case a of AnyString s \<Rightarrow> f s | _ \<Rightarrow> d) = d"
  by (cases a) simp_all


text \<open>
  Claim C10. An optional argument of \<^verbatim>\<open>New\<close> that is missing or is not of the expected
  dynamic type (\<^verbatim>\<open>int\<close> for the two permissions, \<^verbatim>\<open>string\<close> for the user and the group)
  leaves its setting at zero or empty; \<^verbatim>\<open>getLogFileDetails\<close> has no error result and
  reads no index beyond the length of the list, so when every argument is mistyped \<^verbatim>\<open>New\<close>
  does what it does without optional arguments; under Windows the arguments are ignored.
  The witness is the call of \<^verbatim>\<open>TestLogging\<close>, which passes the names first and the
  permissions as \<^verbatim>\<open>os.FileMode\<close>.
\<close>

theorem mistyped_arguments_are_absent:
  "(\<not> (1 \<le> length args \<and> isInt (args ! 0)) \<longrightarrow> fst (getLogFileDetails args) = 0)
   \<and> (\<not> (2 \<le> length args \<and> isInt (args ! 1)) \<longrightarrow> fst (snd (getLogFileDetails args)) = 0)
   \<and> (\<not> (3 \<le> length args \<and> isString (args ! 2))
        \<longrightarrow> fst (snd (snd (getLogFileDetails args))) = [])
   \<and> (\<not> (4 \<le> length args \<and> isString (args ! 3))
        \<longrightarrow> snd (snd (snd (getLogFileDetails args))) = [])
   \<and> ((\<forall>i < length args. (i < 2 \<longrightarrow> \<not> isInt (args ! i)) \<and> (2 \<le> i \<longrightarrow> \<not> isString (args ! i)))
        \<longrightarrow> New OSName now dir ldr trl args w = New OSName now dir ldr trl [] w)
   \<and> newDetails ''windows'' args = (0, 0, [], [])
   \<and> New ''windows'' now dir ldr trl args w = New ''windows'' now dir ldr trl [] w"
proof -
  have 1: "\<not> (1 \<le> length args \<and> isInt (args ! 0)) \<longrightarrow> fst (getLogFileDetails args) = 0"
    by (auto simp: getLogFileDetails_components not_isInt)
  have 2: "\<not> (2 \<le> length args \<and> isInt (args ! 1)) \<longrightarrow> fst (snd (getLogFileDetails args)) = 0"
    by (auto simp: getLogFileDetails_components not_isInt)
  have 3: "\<not> (3 \<le> length args \<and> isString (args ! 2))
      \<longrightarrow> fst (snd (snd (getLogFileDetails args))) = []"
    by (auto simp: getLogFileDetails_components not_isString)
  have 4: "\<not> (4 \<le> length args \<and> isString (args ! 3))
      \<longrightarrow> snd (snd (snd (getLogFileDetails args))) = []"
    by (auto simp: getLogFileDetails_components not_isString)
  have 5: "New OSName now dir ldr trl args w = New OSName now dir ldr trl [] w"
    if h: "\<forall>i < length args. (i < 2 \<longrightarrow> \<not> isInt (args ! i)) \<and> (2 \<le> i \<longrightarrow> \<not> isString (args ! i))"
  proof -
    have g: "(i < 2 \<longrightarrow> \<not> isInt (args ! i)) \<and> (2 \<le> i \<longrightarrow> \<not> isString (args ! i))"
      if "i < length args" for i
      using h that by blast
    have a1: "\<not> isInt (args ! 0)" if "1 \<le> length args"
    proof -
      from that have "0 < length args" by linarith
      from g [OF this] show ?thesis by simp
    qed
    have a2: "\<not> isInt (args ! 1)" if "2 \<le> length args"
    proof -
      from that have "1 < length args" by linarith
      from g [OF this] show ?thesis by simp
    qed
    have a3: "\<not> isString (args ! 2)" if "3 \<le> length args"
    proof -
      from that have "2 < length args" by linarith
      from g [OF this] show ?thesis by simp
    qed
    have a4: "\<not> isString (args ! 3)" if "4 \<le> length args"
    proof -
      from that have "3 < length args" by linarith
      from g [OF this] show ?thesis by simp
    qed
    note a = a1 a2 a3 a4
    have "getLogFileDetails args = (0, 0, [], [])"
      unfolding getLogFileDetails_components using a by (simp add: not_isInt not_isString)
    moreover have "getLogFileDetails [] = (0, 0, [], [])"
      by (simp add: getLogFileDetails_def)
    ultimately have "newDetails OSName args = newDetails OSName []"
      by (simp add: newDetails_def)
    then show ?thesis
      by (simp add: New_def)
  qed
  have 6: "newDetails ''windows'' args = (0, 0, [], [])"
    by (simp add: newDetails_def)
  have 7: "New ''windows'' now dir ldr trl args w = New ''windows'' now dir ldr trl [] w"
    by (simp add: New_def newDetails_def)
  show ?thesis
    using 1 2 3 4 5 6 7 by blast
qed

theorem mistyped_arguments_are_absent_witness:
  "\<not> (1 \<le> length [AnyString ''bin'', AnyString ''daemon'', AnyFileMode 448, AnyFileMode 384]
        \<and> isInt ([AnyString ''bin'', AnyString ''daemon'', AnyFileMode 448, AnyFileMode 384] ! 0))
   \<and> \<not> (2 \<le> length [AnyString ''bin'', AnyString ''daemon'', AnyFileMode 448, AnyFileMode 384]
        \<and> isInt ([AnyString ''bin'', AnyString ''daemon'', AnyFileMode 448, AnyFileMode 384] ! 1))
   \<and> \<not> (3 \<le> length [AnyString ''bin'', AnyString ''daemon'', AnyFileMode 448, AnyFileMode 384]
        \<and> isString ([AnyString ''bin'', AnyString ''daemon'', AnyFileMode 448, AnyFileMode 384] ! 2))
   \<and> \<not> (4 \<le> length [AnyString ''bin'', AnyString ''daemon'', AnyFileMode 448, AnyFileMode 384]
        \<and> isString ([AnyString ''bin'', AnyString ''daemon'', AnyFileMode 448, AnyFileMode 384] ! 3))
   \<and> getLogFileDetails [AnyString ''bin'', AnyString ''daemon'', AnyFileMode 448, AnyFileMode 384]
      = (0, 0, [], [])
   \<and> New ''linux'' (Date 2020 2 14 1 2 3 4 Paris) ''./dir'' ''foo.'' ''.bar''
        [AnyString ''bin'', AnyString ''daemon'', AnyFileMode 448, AnyFileMode 384]
        (a_world (Date 2020 2 14 1 2 3 4 Paris) True)
      = New ''linux'' (Date 2020 2 14 1 2 3 4 Paris) ''./dir'' ''foo.'' ''.bar'' []
        (a_world (Date 2020 2 14 1 2 3 4 Paris) True)"
proof -
  define args where "args = [AnyString ''bin'', AnyString ''daemon'', AnyFileMode 448, AnyFileMode 384]"
  have h: "\<not> (1 \<le> length args \<and> isInt (args ! 0))" "\<not> (2 \<le> length args \<and> isInt (args ! 1))"
    "\<not> (3 \<le> length args \<and> isString (args ! 2))" "\<not> (4 \<le> length args \<and> isString (args ! 3))"
    unfolding args_def by simp_all
  have a: "\<forall>i < length args. (i < 2 \<longrightarrow> \<not> isInt (args ! i)) \<and> (2 \<le> i \<longrightarrow> \<not> isString (args ! i))"
  proof (intro allI impI)
    fix i
    assume "i < length args"
    then have "i = 0 \<or> i = 1 \<or> i = 2 \<or> i = 3"
      unfolding args_def by auto
    then show "(i < 2 \<longrightarrow> \<not> isInt (args ! i)) \<and> (2 \<le> i \<longrightarrow> \<not> isString (args ! i))"
      unfolding args_def by auto
  qed
  note t = mistyped_arguments_are_absent [of args "''linux''" "Date 2020 2 14 1 2 3 4 Paris"
      "''./dir''" "''foo.''" "''.bar''" "a_world (Date 2020 2 14 1 2 3 4 Paris) True"]
  have "getLogFileDetails args = (0, 0, [], [])"
    using t h by (metis prod.collapse)
  moreover have "New ''linux'' (Date 2020 2 14 1 2 3 4 Paris) ''./dir'' ''foo.'' ''.bar'' args
        (a_world (Date 2020 2 14 1 2 3 4 Paris) True)
      = New ''linux'' (Date 2020 2 14 1 2 3 4 Paris) ''./dir'' ''foo.'' ''.bar'' []
        (a_world (Date 2020 2 14 1 2 3 4 Paris) True)"
    using t a by blast
  ultimately show ?thesis
    using h unfolding args_def by blast
qed

section \<open>Writes and a rotation by concurrent goroutines\<close>

text \<open>
  Only the goroutine that holds the mutex takes steps other than \<^verbatim>\<open>Lock\<close>, so every
  interleaved run passes through the states of a run in which the operations follow each
  other in the order in which they took the mutex.
\<close>

lemma program_head: "program x = ALock # tl (program x)"
  by (cases x) simp_all

lemma critical_tl_program: "critical (tl (program x))"
  by (cases x) (simp_all add: critical_def)

lemma critical_next: "critical (a # rest) \<Longrightarrow> a \<noteq> AUnlock \<Longrightarrow> critical rest"
  by (auto simp: critical_def split: if_splits)

lemma critical_unlock: "critical (AUnlock # rest) \<Longrightarrow> rest = []"
  by (auto simp: critical_def split: if_splits)

lemma critical_not_lock: "critical (a # rest) \<Longrightarrow> a \<noteq> ALock"
  by (auto simp: critical_def)

lemma critical_not_Nil: "critical rest \<Longrightarrow> rest \<noteq> []"
  by (simp add: critical_def)

lemma finish_tl_program: "finish (tl (program x)) dw w = run [x] dw w"
  by (cases x) (simp_all add: rotateLogs_def Let_def split: outcome.splits)

lemma run_append:
  "run (xs @ ys) dw w =
     (case run xs dw w of Fatal \<Rightarrow> Fatal | Returns (dw1, w1) \<Rightarrow> run ys dw1 w1)"
proof (induction xs arbitrary: dw w)
  case Nil
  then show ?case by simp
next
  case (Cons x xs)
  then show ?case
    by (cases x) (simp_all split: outcome.splits)
qed

lemma pending_update_busy:
  "i < length gs \<Longrightarrow> length ops = length gs \<Longrightarrow> gs ! i \<noteq> [] \<Longrightarrow> r \<noteq> [] \<Longrightarrow>
   pending ops (gs[i := r]) = pending ops gs"
proof (induction ops gs arbitrary: i rule: list_induct2')
  case (4 x xs g gs)
  then show ?case
    by (cases i) (simp_all add: pending_def)
qed simp_all

lemma pending_update_done:
  "i < length gs \<Longrightarrow> length ops = length gs \<Longrightarrow> gs ! i \<noteq> [] \<Longrightarrow>
   mset (pending ops gs) = add_mset (ops ! i) (mset (pending ops (gs[i := []])))"
proof (induction ops gs arbitrary: i rule: list_induct2')
  case (4 x xs g gs)
  then show ?case
    by (cases i) (simp_all add: pending_def)
qed simp_all

lemma pending_all_done: "list_all (\<lambda>g. g = []) gs \<Longrightarrow> pending ops gs = []"
proof (induction ops gs rule: list_induct2')
  case (4 x xs g gs)
  then show ?case by (simp add: pending_def)
qed (simp_all add: pending_def)

lemma idle_update_other: "i \<noteq> h \<Longrightarrow> idle ops (gs[h := r]) i = idle ops gs i"
  by (simp add: idle_def)

lemma serial_holder_step:
  assumes len: "length (goroutines s) = length ops"
    and run: "run dn dw0 w0 = Returns (dwd, wd)"
    and ms: "mset dn + mset (pending ops (goroutines s)) = mset ops"
    and h: "mutex s = Some h" "h < length ops"
    and g: "goroutines s ! h = a # rest" "critical (a # rest)" "a \<noteq> AUnlock"
    and fin: "finish (a # rest) (the_writer s) (the_world s) = run [ops ! h] dwd wd"
    and others: "\<forall>i < length ops. i \<noteq> h \<longrightarrow> idle ops (goroutines s) i"
    and nxt: "finish rest dw w = finish (a # rest) (the_writer s) (the_world s)"
  shows "serial dw0 w0 ops (advance h rest (s\<lparr>the_writer := dw, the_world := w\<rparr>))"
proof -
  define s' where "s' = advance h rest (s\<lparr>the_writer := dw, the_world := w\<rparr>)"
  have c: "critical rest"
    using g(2,3) by (rule critical_next)
  have gs: "goroutines s' = (goroutines s)[h := rest]" "mutex s' = Some h"
    "the_writer s' = dw" "the_world s' = w" "\<not> exited s' \<longleftrightarrow> \<not> exited s"
    by (simp_all add: s'_def advance_def h(1))
  have p: "pending ops (goroutines s') = pending ops (goroutines s)"
    unfolding gs(1) using h(2) len g(1) critical_not_Nil [OF c]
    by (intro pending_update_busy) simp_all
  have hh: "goroutines s' ! h = rest"
    unfolding gs(1) using h(2) len by simp
  have o: "\<forall>i < length ops. i \<noteq> h \<longrightarrow> idle ops (goroutines s') i"
    unfolding gs(1) using others by (simp add: idle_update_other)
  have "length (goroutines s') = length ops"
    unfolding gs(1) using len by simp
  moreover have "run dn dw0 w0 = Returns (dwd, wd)
      \<and> mset dn + mset (pending ops (goroutines s')) = mset ops
      \<and> (case mutex s' of
           None \<Rightarrow> the_writer s' = dwd \<and> the_world s' = wd
             \<and> (\<forall>i < length ops. idle ops (goroutines s') i)
         | Some h \<Rightarrow> h < length ops \<and> critical (goroutines s' ! h)
             \<and> finish (goroutines s' ! h) (the_writer s') (the_world s') = run [ops ! h] dwd wd
             \<and> (\<forall>i < length ops. i \<noteq> h \<longrightarrow> idle ops (goroutines s') i))"
    unfolding gs(2) p gs(3) gs(4) using run ms h(2) c o nxt fin by (simp add: hh)
  ultimately show ?thesis
    unfolding serial_def s'_def [symmetric] by blast
qed

lemma serial_step:
  assumes inv: "serial dw0 w0 ops s"
  shows "serial dw0 w0 ops (step i s)"
proof (cases "exited s \<or> length (goroutines s) \<le> i \<or> goroutines s ! i = []")
  case True
  then have "step i s = s"
    by (auto simp: step_def)
  then show ?thesis using inv by simp
next
  case False
  then have ne: "\<not> exited s" and i: "i < length (goroutines s)"
    by simp_all
  from False obtain a rest where g: "goroutines s ! i = a # rest"
    by (cases "goroutines s ! i") auto
  have st: "step i s = perform i a rest s"
    using ne i g by (simp add: step_def)
  from inv ne obtain dn dwd wd where
    len: "length (goroutines s) = length ops" and
    run: "run dn dw0 w0 = Returns (dwd, wd)" and
    ms: "mset dn + mset (pending ops (goroutines s)) = mset ops" and
    m: "case mutex s of
          None \<Rightarrow> the_writer s = dwd \<and> the_world s = wd
            \<and> (\<forall>i < length ops. idle ops (goroutines s) i)
        | Some h \<Rightarrow> h < length ops \<and> critical (goroutines s ! h)
            \<and> finish (goroutines s ! h) (the_writer s) (the_world s) = run [ops ! h] dwd wd
            \<and> (\<forall>i < length ops. i \<noteq> h \<longrightarrow> idle ops (goroutines s) i)"
    unfolding serial_def by blast
  have il: "i < length ops"
    using i len by simp
  show ?thesis
  proof (cases "mutex s")
    case None
    with m have w: "the_writer s = dwd" "the_world s = wd"
      and all: "\<forall>i < length ops. idle ops (goroutines s) i"
      by simp_all
    from all il g have prog: "a # rest = program (ops ! i)"
      by (auto simp: idle_def)
    then have a: "a = ALock" and r: "rest = tl (program (ops ! i))"
      using program_head [of "ops ! i"] by (metis list.inject, metis list.sel(3))
    define s' where "s' = advance i rest (s\<lparr>mutex := Some i\<rparr>)"
    have s': "step i s = s'"
      unfolding st a s'_def using None by simp
    have c: "critical rest"
      unfolding r by (rule critical_tl_program)
    have gs: "goroutines s' = (goroutines s)[i := rest]" "mutex s' = Some i"
      "the_writer s' = dwd" "the_world s' = wd"
      by (simp_all add: s'_def advance_def w)
    have p: "pending ops (goroutines s') = pending ops (goroutines s)"
      unfolding gs(1) using i len g critical_not_Nil [OF c]
      by (intro pending_update_busy) simp_all
    have hh: "goroutines s' ! i = rest"
      unfolding gs(1) using i by simp
    have o: "\<forall>j < length ops. j \<noteq> i \<longrightarrow> idle ops (goroutines s') j"
      unfolding gs(1) using all by (simp add: idle_update_other)
    have f: "finish rest dwd wd = run [ops ! i] dwd wd"
      unfolding r by (rule finish_tl_program)
    have "length (goroutines s') = length ops"
      unfolding gs(1) using len by simp
    moreover have "run dn dw0 w0 = Returns (dwd, wd)
        \<and> mset dn + mset (pending ops (goroutines s')) = mset ops
        \<and> (case mutex s' of
             None \<Rightarrow> the_writer s' = dwd \<and> the_world s' = wd
               \<and> (\<forall>i < length ops. idle ops (goroutines s') i)
           | Some h \<Rightarrow> h < length ops \<and> critical (goroutines s' ! h)
               \<and> finish (goroutines s' ! h) (the_writer s') (the_world s') = run [ops ! h] dwd wd
               \<and> (\<forall>i < length ops. i \<noteq> h \<longrightarrow> idle ops (goroutines s') i))"
      unfolding gs(2) p gs(3) gs(4) using run ms il c o f by (simp add: hh)
    ultimately show ?thesis
      unfolding serial_def s' by blast
  next
    case (Some h)
    with m have h: "h < length ops" and c: "critical (goroutines s ! h)"
      and f: "finish (goroutines s ! h) (the_writer s) (the_world s) = run [ops ! h] dwd wd"
      and others: "\<forall>i < length ops. i \<noteq> h \<longrightarrow> idle ops (goroutines s) i"
      by simp_all
    show ?thesis
    proof (cases "i = h")
      case False
      with others il g have "a # rest = program (ops ! i)"
        by (auto simp: idle_def)
      then have "a = ALock"
        using program_head [of "ops ! i"] by (metis list.inject)
      then have "step i s = s"
        unfolding st using Some by simp
      then show ?thesis using inv by simp
    next
      case True
      note sth = st [unfolded True]
      note gh = g [unfolded True]
      note ch = c [unfolded gh]
      note fh = f [unfolded gh]
      note hold = serial_holder_step [OF len run ms Some h gh ch _ fh others]
      show ?thesis
      proof (cases a)
        case ALock
        then show ?thesis using critical_not_lock [OF ch] by simp
      next
        case (ASwWrite buffer)
        have "serial dw0 w0 ops (advance h rest
            (s\<lparr>the_writer := the_writer s, the_world := Write (the_writer s) buffer (the_world s)\<rparr>))"
          by (rule hold) (simp_all add: ASwWrite)
        then show ?thesis
          unfolding True sth ASwWrite by simp
      next
        case ACloseLog
        have "serial dw0 w0 ops (advance h rest
            (s\<lparr>the_writer := closeLog (the_writer s), the_world := the_world s\<rparr>))"
          by (rule hold) (simp_all add: ACloseLog)
        then show ?thesis
          unfolding True sth ACloseLog by simp
      next
        case (ASetDay now)
        have "serial dw0 w0 ops (advance h rest
            (s\<lparr>the_writer := (the_writer s)\<lparr>startOfToday := getLastMidnight now\<rparr>,
               the_world := the_world s\<rparr>))"
          by (rule hold) (simp_all add: ASetDay)
        then show ?thesis
          unfolding True sth ASetDay by simp
      next
        case AOpenLog
        show ?thesis
        proof (cases "openLog (the_writer s) (the_world s)")
          case Fatal
          then have "exited (step i s)"
            unfolding True sth AOpenLog by simp
          then show ?thesis
            by (simp add: serial_def)
        next
          case (Returns r)
          obtain dw w where r: "r = (dw, w)"
            by (cases r)
          have "serial dw0 w0 ops (advance h rest (s\<lparr>the_writer := dw, the_world := w\<rparr>))"
            by (rule hold) (simp_all add: AOpenLog Returns r)
          then show ?thesis
            unfolding True sth AOpenLog by (simp add: Returns r)
        qed
      next
        case AUnlock
        have rest: "rest = []"
          using ch unfolding AUnlock by (rule critical_unlock)
        define s' where "s' = advance h [] (s\<lparr>mutex := None\<rparr>)"
        have s': "step i s = s'"
          unfolding True sth AUnlock rest s'_def by simp
        have gs: "goroutines s' = (goroutines s)[h := []]" "mutex s' = None"
          "the_writer s' = the_writer s" "the_world s' = the_world s"
          by (simp_all add: s'_def advance_def)
        have r1: "run [ops ! h] dwd wd = Returns (the_writer s, the_world s)"
          using fh unfolding AUnlock rest by simp
        have r2: "run (dn @ [ops ! h]) dw0 w0 = Returns (the_writer s, the_world s)"
          unfolding run_append run using r1 by simp
        have hl: "h < length (goroutines s)"
          using h len by simp
        have "mset (pending ops (goroutines s))
            = add_mset (ops ! h) (mset (pending ops (goroutines s')))"
          unfolding gs(1) using hl len gh by (intro pending_update_done) simp_all
        then have ms': "mset (dn @ [ops ! h]) + mset (pending ops (goroutines s')) = mset ops"
          using ms by simp
        have o: "\<forall>j < length ops. idle ops (goroutines s') j"
        proof (intro allI impI)
          fix j
          assume j: "j < length ops"
          show "idle ops (goroutines s') j"
          proof (cases "j = h")
            case True
            then show ?thesis
              unfolding gs(1) using hl by (simp add: idle_def)
          next
            case False
            then show ?thesis
              unfolding gs(1) using others j by (simp add: idle_update_other)
          qed
        qed
        have "length (goroutines s') = length ops"
          unfolding gs(1) using len by simp
        moreover have "run (dn @ [ops ! h]) dw0 w0 = Returns (the_writer s, the_world s)
            \<and> mset (dn @ [ops ! h]) + mset (pending ops (goroutines s')) = mset ops
            \<and> (case mutex s' of
                 None \<Rightarrow> the_writer s' = the_writer s \<and> the_world s' = the_world s
                   \<and> (\<forall>i < length ops. idle ops (goroutines s') i)
               | Some h \<Rightarrow> h < length ops \<and> critical (goroutines s' ! h)
                   \<and> finish (goroutines s' ! h) (the_writer s') (the_world s')
                       = run [ops ! h] (the_writer s) (the_world s)
                   \<and> (\<forall>i < length ops. i \<noteq> h \<longrightarrow> idle ops (goroutines s') i))"
          unfolding gs(2) using r2 ms' gs(3) gs(4) o by simp
        ultimately show ?thesis
          unfolding serial_def s' by blast
      qed
    qed
  qed
qed

lemma serial_exec: "serial dw0 w0 ops s \<Longrightarrow> serial dw0 w0 ops (exec schedule s)"
  by (induction schedule arbitrary: s) (simp_all add: serial_step)

lemma serial_start: "serial dw w ops (start dw w ops)"
proof -
  have "run [] dw w = Returns (dw, w)"
    by simp
  moreover have "pending ops (map program ops) = ops"
  proof (induction ops)
    case Nil
    then show ?case by (simp add: pending_def)
  next
    case (Cons x xs)
    have "program x \<noteq> []"
      by (cases x) simp_all
    with Cons show ?case
      by (simp add: pending_def)
  qed
  ultimately show ?thesis
    unfolding serial_def start_def by (auto simp: idle_def intro!: exI [of _ "[]"])
qed

lemma finished_serial:
  assumes "finished s" "serial dw0 w0 ops s"
  shows "\<exists>dn. mset dn = mset ops \<and> run dn dw0 w0 = Returns (the_writer s, the_world s)"
proof -
  have ne: "\<not> exited s" and all: "list_all (\<lambda>g. g = []) (goroutines s)"
    using assms(1) by (simp_all add: finished_def)
  from assms(2) ne obtain dn dwd wd where
    len: "length (goroutines s) = length ops" and
    run: "run dn dw0 w0 = Returns (dwd, wd)" and
    ms: "mset dn + mset (pending ops (goroutines s)) = mset ops" and
    m: "case mutex s of
          None \<Rightarrow> the_writer s = dwd \<and> the_world s = wd
            \<and> (\<forall>i < length ops. idle ops (goroutines s) i)
        | Some h \<Rightarrow> h < length ops \<and> critical (goroutines s ! h)
            \<and> finish (goroutines s ! h) (the_writer s) (the_world s) = run [ops ! h] dwd wd
            \<and> (\<forall>i < length ops. i \<noteq> h \<longrightarrow> idle ops (goroutines s) i)"
    unfolding serial_def by blast
  have free: "mutex s = None"
  proof (cases "mutex s")
    case None
    then show ?thesis .
  next
    case (Some h)
    with m have "h < length ops" "critical (goroutines s ! h)"
      by simp_all
    moreover from this(1) len all have "goroutines s ! h = []"
      by (simp add: list_all_length)
    ultimately show ?thesis
      by (simp add: critical_def)
  qed
  with m have "the_writer s = dwd" "the_world s = wd"
    by simp_all
  moreover have "mset dn = mset ops"
    using ms pending_all_done [OF all] by simp
  ultimately show ?thesis
    using run by blast
qed

lemma run_writes:
  "switchwriter dw = Some p \<Longrightarrow> files w p = Some c \<Longrightarrow>
   run (map OpWrite xs @ rest) dw w = run rest dw (w\<lparr>files := (files w)(p \<mapsto> c @ concat xs)\<rparr>)"
proof (induction xs arbitrary: w c)
  case Nil
  then have "(files w)(p \<mapsto> c) = files w"
    by (simp add: map_upd_triv)
  then show ?case by simp
next
  case (Cons x xs)
  define w1 where "w1 = w\<lparr>files := (files w)(p \<mapsto> c @ x)\<rparr>"
  have w1: "Write dw x w = w1" "files w1 p = Some (c @ x)"
    using Cons.prems by (simp_all add: Write_def w1_def)
  have "run (map OpWrite (x # xs) @ rest) dw w = run (map OpWrite xs @ rest) dw w1"
    by (simp add: w1(1))
  also have "\<dots> = run rest dw (w1\<lparr>files := (files w1)(p \<mapsto> (c @ x) @ concat xs)\<rparr>)"
    by (rule Cons.IH [OF Cons.prems(1) w1(2)])
  also have "w1\<lparr>files := (files w1)(p \<mapsto> (c @ x) @ concat xs)\<rparr>
      = w\<lparr>files := (files w)(p \<mapsto> c @ concat (x # xs))\<rparr>"
    by (simp add: w1_def)
  finally show ?case .
qed

lemma rotateLogs_Returns_world:
  assumes "rotateLogs dw now w = Returns (dw', w')"
  shows "w' = w\<lparr>files := (files w)(getLogPathname dw (getLastMidnight now) \<mapsto>
      (case files w (getLogPathname dw (getLastMidnight now)) of None \<Rightarrow> [] | Some c \<Rightarrow> c))\<rparr>"
  using assms
  by (auto simp: rotateLogs_def openLog_def openFile_def os_OpenFile_def Let_def closeLog_def
      getLogPathname_def split: if_splits)

lemma writes_around_rotation:
  assumes "mset dn = mset (OpRotate now # map OpWrite buffers)"
  shows "\<exists>before after. dn = map OpWrite before @ OpRotate now # map OpWrite after
      \<and> mset (before @ after) = mset buffers"
proof -
  have "OpRotate now \<in> set dn"
    using assms by (metis list.set_intros(1) mset_eq_setD)
  then obtain xs ys where dn: "dn = xs @ OpRotate now # ys"
    by (auto dest: split_list)
  have m: "mset (xs @ ys) = mset (map OpWrite buffers)"
    using assms unfolding dn by simp
  then have "set (xs @ ys) = set (map OpWrite buffers)"
    by (rule mset_eq_setD)
  then have w: "\<forall>x \<in> set xs \<union> set ys. OpWrite (buffer_of x) = x"
    by auto
  have xs: "xs = map OpWrite (map buffer_of xs)" and ys: "ys = map OpWrite (map buffer_of ys)"
    using w by (simp_all add: map_idI)
  have "mset (map buffer_of (xs @ ys)) = mset (map buffer_of (map OpWrite buffers))"
    using m by (metis mset_map)
  then have "mset (map buffer_of xs @ map buffer_of ys) = mset buffers"
    by (simp add: comp_def)
  with dn xs ys show ?thesis
    by metis
qed


text \<open>
  Claim C9. Goroutines that call \<^verbatim>\<open>Write\<close>, one for each of any number of buffers, run
  together with a goroutine that calls \<^verbatim>\<open>rotateLogs\<close>, under any schedule. When all of them
  have returned, the buffers fall into those written before the rotation and those
  written after it: the file of the old day holds its former contents followed by the
  former buffers, each whole, the file of the new day holds its former contents followed
  by the latter, each whole, every buffer is in exactly one of the two groups, the switch
  writer is connected to the new file, and no other file has changed. A goroutine that
  asks for the mutex during the rotation does not move until the rotation has released
  it, and then writes to the new file.
\<close>

theorem writes_never_straddle_rotation:
  assumes "s = exec schedule (start dw w (OpRotate now # map OpWrite buffers))"
    and "finished s"
    and "switchwriter dw = Some old"
    and "files w old = Some c"
    and "new = getLogPathname dw (getLastMidnight now)"
    and "new \<noteq> old"
  shows "\<exists>before after. mset (before @ after) = mset buffers
      \<and> files (the_world s) old = Some (c @ concat before)
      \<and> files (the_world s) new
          = Some ((case files w new of None \<Rightarrow> [] | Some c' \<Rightarrow> c') @ concat after)
      \<and> switchwriter (the_writer s) = Some new
      \<and> (\<forall>p. p \<noteq> old \<and> p \<noteq> new \<longrightarrow> files (the_world s) p = files w p)"
proof -
  define ops where "ops = OpRotate now # map OpWrite buffers"
  have "serial dw w ops s"
    unfolding assms(1) ops_def [symmetric] by (intro serial_exec serial_start)
  with assms(2) obtain dn where
    dn: "mset dn = mset ops" and r: "run dn dw w = Returns (the_writer s, the_world s)"
    using finished_serial by blast
  from dn obtain before after where
    sp: "dn = map OpWrite before @ OpRotate now # map OpWrite after" and
    ms: "mset (before @ after) = mset buffers"
    unfolding ops_def using writes_around_rotation by blast
  define w1 where "w1 = w\<lparr>files := (files w)(old \<mapsto> c @ concat before)\<rparr>"
  have r1: "run (OpRotate now # map OpWrite after) dw w1 = Returns (the_writer s, the_world s)"
    using r unfolding sp run_writes [OF assms(3) assms(4)] w1_def .
  then obtain dw2 w2 where
    rot: "rotateLogs dw now w1 = Returns (dw2, w2)" and
    r2: "run (map OpWrite after) dw2 w2 = Returns (the_writer s, the_world s)"
    by (auto split: outcome.splits)
  define c' where "c' = (case files w new of None \<Rightarrow> [] | Some c' \<Rightarrow> c')"
  have dw2: "dw2 = dw\<lparr>startOfToday := getLastMidnight now, switchwriter := Some new\<rparr>"
    using rotateLogs_Returns [OF rot] assms(5) by simp
  have "files w1 new = files w new"
    using assms(6) by (simp add: w1_def)
  then have w2: "w2 = w1\<lparr>files := (files w1)(new \<mapsto> c')\<rparr>"
    using rotateLogs_Returns_world [OF rot] assms(5) by (simp add: c'_def)
  have sw2: "switchwriter dw2 = Some new" and f2: "files w2 new = Some c'"
    by (simp_all add: dw2 w2)
  have "run (map OpWrite after @ []) dw2 w2
      = run [] dw2 (w2\<lparr>files := (files w2)(new \<mapsto> c' @ concat after)\<rparr>)"
    by (rule run_writes [OF sw2 f2])
  with r2 have fin: "the_writer s = dw2"
    "the_world s = w2\<lparr>files := (files w2)(new \<mapsto> c' @ concat after)\<rparr>"
    by simp_all
  have 1: "files (the_world s) old = Some (c @ concat before)"
    using assms(6) by (simp add: fin w2 w1_def)
  have 2: "files (the_world s) new = Some (c' @ concat after)"
    by (simp add: fin)
  have 3: "switchwriter (the_writer s) = Some new"
    by (simp add: fin sw2)
  have 4: "\<forall>p. p \<noteq> old \<and> p \<noteq> new \<longrightarrow> files (the_world s) p = files w p"
    by (simp add: fin w2 w1_def)
  show ?thesis
    using ms 1 2 3 4 unfolding c'_def by blast
qed


theorem writes_never_straddle_rotation_witness:
  "finished rollover_run
   \<and> switchwriter rollover_writer = Some ''./foo.2020-02-14.bar''
   \<and> files rollover_world ''./foo.2020-02-14.bar'' = Some []
   \<and> ''./foo.2020-02-15.bar'' = getLogPathname rollover_writer (getLastMidnight tomorrow)
   \<and> (\<exists>before after. mset (before @ after) = mset [''hello'', ''world'']
        \<and> files (the_world rollover_run) ''./foo.2020-02-14.bar'' = Some ([] @ concat before)
        \<and> files (the_world rollover_run) ''./foo.2020-02-15.bar''
            = Some ((case files rollover_world ''./foo.2020-02-15.bar'' of
                       None \<Rightarrow> [] | Some c' \<Rightarrow> c') @ concat after)
        \<and> switchwriter (the_writer rollover_run) = Some ''./foo.2020-02-15.bar'')
   \<and> files (the_world rollover_run) ''./foo.2020-02-14.bar'' = Some ''hello''
   \<and> files (the_world rollover_run) ''./foo.2020-02-15.bar'' = Some ''world''"
proof -
  have h1: "finished rollover_run"
    by code_simp
  have h2: "switchwriter rollover_writer = Some ''./foo.2020-02-14.bar''"
    by code_simp
  have h3: "files rollover_world ''./foo.2020-02-14.bar'' = Some []"
    by code_simp
  have h4: "''./foo.2020-02-15.bar'' = getLogPathname rollover_writer (getLastMidnight tomorrow)"
    by code_simp
  have h5: "''./foo.2020-02-15.bar'' \<noteq> ''./foo.2020-02-14.bar''"
    by simp
  have c1: "files (the_world rollover_run) ''./foo.2020-02-14.bar'' = Some ''hello''"
    by code_simp
  have c2: "files (the_world rollover_run) ''./foo.2020-02-15.bar'' = Some ''world''"
    by code_simp
  show ?thesis
    using writes_never_straddle_rotation [OF rollover_run_def h1 h2 h3 h4 h5] h1 h2 h3 h4 c1 c2
    by blast
qed

end
